theory Spec2Isabelle
  imports Main "HOL-Library.Multiset"
begin

section \<open>Strings\<close>

text \<open>
  A Python \<^verbatim>\<open>str\<close> is a sequence of Unicode code points, and \<^verbatim>\<open>ord(ch)\<close> is
  the code point of a character: a string is a list of naturals. \<open>str\<close> writes an
  ASCII literal.
\<close>

type_synonym pystr = "nat list"

definition str :: "string \<Rightarrow> pystr" where
  "str cs = map of_char cs"

text \<open>
  \<^verbatim>\<open>s.lower()\<close>. On a string of ASCII code points it maps \<^verbatim>\<open>A\<close>..\<^verbatim>\<open>Z\<close> to
  \<^verbatim>\<open>a\<close>..\<^verbatim>\<open>z\<close> and leaves every other code point alone. On any other string it
  follows the Unicode case tables of the interpreter, which are not part of the
  program: \<open>U\<close> stands for them, and no result below depends on what \<open>U\<close> is.
\<close>

definition ascii_lower :: "nat \<Rightarrow> nat" where
  "ascii_lower c = (if 65 \<le> c \<and> c \<le> 90 then c + 32 else c)"

definition lower :: "(pystr \<Rightarrow> pystr) \<Rightarrow> pystr \<Rightarrow> pystr" where
  "lower U s = (if list_all (\<lambda>c. c < 128) s then map ascii_lower s else U s)"

text \<open>\<^verbatim>\<open>kw in name\<close> on two strings: \<open>kw\<close> occurs in \<open>name\<close> as a contiguous run.\<close>

fun is_prefix :: "pystr \<Rightarrow> pystr \<Rightarrow> bool" where
  "is_prefix [] s = True"
| "is_prefix (k # ks) [] = False"
| "is_prefix (k # ks) (c # cs) = (k = c \<and> is_prefix ks cs)"

fun str_in :: "pystr \<Rightarrow> pystr \<Rightarrow> bool" where
  "str_in kw [] = (kw = [])"
| "str_in kw (c # cs) = (is_prefix kw (c # cs) \<or> str_in kw cs)"

text \<open>
  \<^verbatim>\<open>x or y\<close> on an optional string: \<^verbatim>\<open>None\<close> and the empty string are both falsy.
\<close>

definition py_or :: "pystr option \<Rightarrow> pystr \<Rightarrow> pystr" where
  "py_or x y = (case x of None \<Rightarrow> y | Some s \<Rightarrow> if s \<noteq> [] then s else y)"

section \<open>Paths\<close>

text \<open>
  \<^verbatim>\<open>Path(filename).suffix\<close> of pathlib, on a POSIX host. The path is split at
  \<^verbatim>\<open>/\<close> (code point 47); empty components and \<^verbatim>\<open>.\<close> components are dropped; the
  name is the last component left, or the empty string. The suffix is the part of the
  name from its last \<^verbatim>\<open>.\<close> (code point 46) on, when that dot is neither the first
  nor the last character of the name, and the empty string otherwise.
\<close>

fun split_on :: "nat \<Rightarrow> pystr \<Rightarrow> pystr list" where
  "split_on sep [] = [[]]"
| "split_on sep (c # cs) =
     (if c = sep then [] # split_on sep cs
      else (case split_on sep cs of [] \<Rightarrow> [[c]] | p # ps \<Rightarrow> (c # p) # ps))"

definition path_parts :: "pystr \<Rightarrow> pystr list" where
  "path_parts f = filter (\<lambda>x. x \<noteq> [] \<and> x \<noteq> [46]) (split_on 47 f)"

definition path_name :: "pystr \<Rightarrow> pystr" where
  "path_name f = (case path_parts f of [] \<Rightarrow> [] | p # ps \<Rightarrow> last (p # ps))"

text \<open>\<^verbatim>\<open>s.rfind(c)\<close>: the last index of \<open>c\<close>; Python's \<^verbatim>\<open>-1\<close> is \<open>None\<close>.\<close>

fun rfind :: "nat \<Rightarrow> pystr \<Rightarrow> nat option" where
  "rfind c [] = None"
| "rfind c (x # xs) =
     (case rfind c xs of
        Some i \<Rightarrow> Some (Suc i)
      | None \<Rightarrow> if x = c then Some 0 else None)"

definition path_suffix :: "pystr \<Rightarrow> pystr" where
  "path_suffix f =
     (let name = path_name f in
      case rfind 46 name of
        None \<Rightarrow> []
      | Some i \<Rightarrow> if 0 < i \<and> int i < int (length name) - 1 then drop i name else [])"

section \<open>The breed selector and the upload gate\<close>

definition BREEDS :: "pystr list" where
  "BREEDS = [str ''Jersey'', str ''Holstein'', str ''Gir'', str ''Sahiwal'', str ''Tharparkar'']"

text \<open>
  The three constant sets of the module. Membership and \<^verbatim>\<open>for kw in COW_KEYWORDS\<close>
  do not depend on the order of a set; the lists keep the order of the source text.
\<close>

definition ALLOWED_CT :: "pystr list" where
  "ALLOWED_CT = [str ''image/jpeg'', str ''image/jpg'', str ''image/png'', str ''image/webp'']"

definition ALLOWED_EXT :: "pystr list" where
  "ALLOWED_EXT = [str ''.jpg'', str ''.jpeg'', str ''.png'', str ''.webp'']"

definition COW_KEYWORDS :: "pystr list" where
  "COW_KEYWORDS = [str ''cow'', str ''cattle'', str ''bull'', str ''calf'', str ''ox'',
     str ''heifer'', str ''jersey'', str ''holstein'', str ''gir'', str ''sahiwal'',
     str ''tharparkar'']"

text \<open>The loop of \<^verbatim>\<open>_mock_breed_choice\<close>, with the accumulator \<open>h\<close>.\<close>

fun hash_loop :: "nat \<Rightarrow> pystr \<Rightarrow> nat" where
  "hash_loop h [] = h"
| "hash_loop h (ch # rest) = hash_loop ((h * 131 + ch) mod 1000003) rest"

definition breed_index :: "pystr \<Rightarrow> nat" where
  "breed_index seed_text = hash_loop 0 seed_text mod length BREEDS"

definition mock_breed_choice :: "pystr \<Rightarrow> pystr" where
  "mock_breed_choice seed_text = BREEDS ! breed_index seed_text"

text \<open>
  \<^verbatim>\<open>_looks_like_cow\<close>. The loop over the keywords returns \<^verbatim>\<open>True\<close> at the first
  keyword found in the lowercased filename; when none is found, control falls out of
  the \<^verbatim>\<open>if filename:\<close> block to the final \<^verbatim>\<open>return False\<close>.
\<close>

definition looks_like_cow :: "(pystr \<Rightarrow> pystr) \<Rightarrow> pystr option \<Rightarrow> pystr option \<Rightarrow> bool" where
  "looks_like_cow U filename content_type =
     (case content_type of
        None \<Rightarrow> False
      | Some ct \<Rightarrow>
          if ct = [] \<or> lower U ct \<notin> set ALLOWED_CT then False
          else (case filename of
                  None \<Rightarrow> False
                | Some f \<Rightarrow>
                    if f \<noteq> [] then
                      (let ext = lower U (path_suffix f) in
                       if ext \<notin> set ALLOWED_EXT then False
                       else (let name = lower U f in
                             list_ex (\<lambda>kw. str_in kw name) COW_KEYWORDS))
                    else False))"

section \<open>The upload gate as the specification words it\<close>

text \<open>
  The specification reads the extension of a filename as the part of the whole filename
  from its last \<^verbatim>\<open>.\<close> on, and accepts when the content type is allowed, the
  filename is present, that extension is allowed and a keyword occurs in the filename.
\<close>

definition spec_extension :: "pystr \<Rightarrow> pystr" where
  "spec_extension f = (case rfind 46 f of None \<Rightarrow> [] | Some i \<Rightarrow> drop i f)"

definition spec_accept :: "(pystr \<Rightarrow> pystr) \<Rightarrow> pystr option \<Rightarrow> pystr option \<Rightarrow> bool" where
  "spec_accept U filename content_type =
     ((case content_type of None \<Rightarrow> False | Some ct \<Rightarrow> lower U ct \<in> set ALLOWED_CT) \<and>
      (case filename of
         None \<Rightarrow> False
       | Some f \<Rightarrow> lower U (spec_extension f) \<in> set ALLOWED_EXT \<and>
                  list_ex (\<lambda>kw. str_in kw (lower U f)) COW_KEYWORDS))"

section \<open>The prediction store\<close>

text \<open>
  A \<^verbatim>\<open>Prediction\<close> as it is stored. \<open>doc_id\<close> is the field \<^verbatim>\<open>id\<close>, which
  the handler also stores as the key \<^verbatim>\<open>_id\<close> of the document. \<open>timestamp\<close> is the
  creation instant in microseconds; the store holds its ISO-8601 text, and the texts of
  two UTC instants compare as the instants do.
\<close>

record prediction =
  doc_id :: pystr
  filename :: "pystr option"
  content_type :: "pystr option"
  breed :: pystr
  timestamp :: int

text \<open>
  What one request can raise. Every step that talks to the upload, the scratch
  directory or the store may fail; \<open>failing\<close> of the request environment lists the
  steps that do.
\<close>

datatype step = Read | Write | Insert | Count | Find | Delete | Unlink

datatype error = IOError step | DuplicateKeyError

record env =
  uuid_temp :: pystr
  uuid_doc :: pystr
  now :: int
  failing :: "step list"

text \<open>
  The collection \<^verbatim>\<open>db.predictions\<close> is the list of its documents in insertion order.
  The key \<^verbatim>\<open>_id\<close> is unique: inserting a document whose key is present raises.
\<close>

definition insert_one :: "env \<Rightarrow> prediction \<Rightarrow> prediction list \<Rightarrow> error + prediction list" where
  "insert_one e doc docs =
     (if Insert \<in> set (failing e) then Inl (IOError Insert)
      else if doc_id doc \<in> set (map doc_id docs) then Inl DuplicateKeyError
      else Inr (docs @ [doc]))"

definition count_documents :: "env \<Rightarrow> prediction list \<Rightarrow> error + nat" where
  "count_documents e docs =
     (if Count \<in> set (failing e) then Inl (IOError Count) else Inr (length docs))"

text \<open>
  \<^verbatim>\<open>find({}, {"_id": 1, "timestamp": 1}).sort("timestamp", 1).limit(n)\<close>, read for
  the keys. The store leaves the order of equal timestamps open; here it is the
  insertion order.
\<close>

definition find_oldest_ids :: "env \<Rightarrow> nat \<Rightarrow> prediction list \<Rightarrow> error + pystr list" where
  "find_oldest_ids e n docs =
     (if Find \<in> set (failing e) then Inl (IOError Find)
      else Inr (map doc_id (take n (sort_key timestamp docs))))"

definition delete_many :: "env \<Rightarrow> pystr list \<Rightarrow> prediction list \<Rightarrow> error + prediction list" where
  "delete_many e ids docs =
     (if Delete \<in> set (failing e) then Inl (IOError Delete)
      else Inr (filter (\<lambda>d. doc_id d \<notin> set ids) docs))"

text \<open>
  The body of the inner \<^verbatim>\<open>try\<close> that keeps the last 20 predictions, and the
  \<^verbatim>\<open>try\<close> around it, whose handler is \<^verbatim>\<open>pass\<close>.
\<close>

definition prune :: "env \<Rightarrow> prediction list \<Rightarrow> error + prediction list" where
  "prune e docs =
     (case count_documents e docs of
        Inl err \<Rightarrow> Inl err
      | Inr total_docs \<Rightarrow>
          if total_docs > 20 then
            (case find_oldest_ids e (total_docs - 20) docs of
               Inl err \<Rightarrow> Inl err
             | Inr to_delete \<Rightarrow>
                 if to_delete \<noteq> [] then delete_many e to_delete docs else Inr docs)
          else Inr docs)"

definition try_prune :: "env \<Rightarrow> prediction list \<Rightarrow> prediction list" where
  "try_prune e docs = (case prune e docs of Inl err \<Rightarrow> docs | Inr docs' \<Rightarrow> docs')"

text \<open>The three store calls of the pruning step all succeed.\<close>

definition prune_ok :: "env \<Rightarrow> bool" where
  "prune_ok e =
     (Count \<notin> set (failing e) \<and> Find \<notin> set (failing e) \<and> Delete \<notin> set (failing e))"

section \<open>The scratch directory\<close>

text \<open>
  \<^verbatim>\<open>UPLOADS_DIR\<close> as the list of its files, name and bytes. Writing with mode
  \<^verbatim>\<open>wb\<close> replaces a file of the same name; \<^verbatim>\<open>unlink(missing_ok=True)\<close> removes
  it when it is there.
\<close>

type_synonym files = "(pystr \<times> nat list) list"

definition write_file :: "env \<Rightarrow> pystr \<Rightarrow> nat list \<Rightarrow> files \<Rightarrow> error + files" where
  "write_file e name contents fs =
     (if Write \<in> set (failing e) then Inl (IOError Write)
      else Inr (filter (\<lambda>f. fst f \<noteq> name) fs @ [(name, contents)]))"

definition unlink :: "env \<Rightarrow> pystr \<Rightarrow> files \<Rightarrow> error + files" where
  "unlink e name fs =
     (if Unlink \<in> set (failing e) then Inl (IOError Unlink)
      else Inr (filter (\<lambda>f. fst f \<noteq> name) fs))"

definition try_unlink :: "env \<Rightarrow> pystr \<Rightarrow> files \<Rightarrow> files" where
  "try_unlink e name fs = (case unlink e name fs of Inl err \<Rightarrow> fs | Inr fs' \<Rightarrow> fs')"

section \<open>The prediction service\<close>

record upload_file =
  file_filename :: "pystr option"
  file_content_type :: "pystr option"
  file_contents :: "nat list"

record state =
  predictions :: "prediction list"
  uploads :: files
  logged :: "string list"

datatype response = Breed_response pystr | HTTPException nat string

definition read_upload :: "env \<Rightarrow> upload_file \<Rightarrow> error + nat list" where
  "read_upload e file =
     (if Read \<in> set (failing e) then Inl (IOError Read) else Inr (file_contents file))"

text \<open>The seed of the mock prediction: \<^verbatim>\<open>file.filename or "default"\<close>.\<close>

definition seed_of :: "upload_file \<Rightarrow> pystr" where
  "seed_of file = py_or (file_filename file) (str ''default'')"

text \<open>
  The outer \<^verbatim>\<open>try\<close> block of \<^verbatim>\<open>predict_cattle_breed\<close>: the response, or the
  exception that leaves the block, with the state as it is at that moment.
\<close>

definition predict_body :: "env \<Rightarrow> upload_file \<Rightarrow> state \<Rightarrow> (error + response) \<times> state" where
  "predict_body e file st =
     (let suffix = (case file_filename file of
                      None \<Rightarrow> []
                    | Some f \<Rightarrow> if f \<noteq> [] then path_suffix f else []);
          temp_name = uuid_temp e @ suffix
      in case read_upload e file of
           Inl err \<Rightarrow> (Inl err, st)
         | Inr contents \<Rightarrow>
            (case write_file e temp_name contents (uploads st) of
               Inl err \<Rightarrow> (Inl err, st)
             | Inr fs \<Rightarrow>
                (let st1 = st\<lparr>uploads := fs\<rparr>;
                     seed = seed_of file;
                     predicted = mock_breed_choice seed;
                     doc = \<lparr>doc_id = uuid_doc e, filename = file_filename file,
                            content_type = file_content_type file, breed = predicted,
                            timestamp = now e\<rparr>
                 in case insert_one e doc (predictions st1) of
                      Inl err \<Rightarrow> (Inl err, st1)
                    | Inr docs \<Rightarrow>
                        (Inr (Breed_response predicted),
                         st1\<lparr>predictions := try_prune e docs,
                             uploads := try_unlink e temp_name fs\<rparr>))))"

definition predict_cattle_breed ::
    "(pystr \<Rightarrow> pystr) \<Rightarrow> env \<Rightarrow> upload_file \<Rightarrow> state \<Rightarrow> response \<times> state" where
  "predict_cattle_breed U e file st =
     (case file_content_type file of
        None \<Rightarrow> (HTTPException 400 ''Please upload an image file'', st)
      | Some ct \<Rightarrow>
          if \<not> looks_like_cow U (Some (py_or (file_filename file) [])) (Some ct)
          then (HTTPException 400 ''Uploaded image does not appear to be a cow (mock heuristic)'', st)
          else (case predict_body e file st of
                  (Inl err, st') \<Rightarrow>
                    (HTTPException 500 ''Prediction failed'',
                     st'\<lparr>logged := logged st' @ [''Prediction failed'']\<rparr>)
                | (Inr r, st') \<Rightarrow> (r, st')))"

section \<open>Reading the store\<close>

text \<open>
  \<^verbatim>\<open>get_recent_predictions\<close>; \<open>None\<close> is a request without the query parameter,
  where \<^verbatim>\<open>limit\<close> takes its default. Equal timestamps come in insertion order.
\<close>

definition get_recent_predictions :: "int option \<Rightarrow> state \<Rightarrow> prediction list \<times> state" where
  "get_recent_predictions limit_param st =
     (let limit0 = (case limit_param of None \<Rightarrow> 20 | Some n \<Rightarrow> n);
          limit = max 1 (min 50 limit0);
          preds = take (nat limit) (take (nat limit) (sort_key (\<lambda>d. - timestamp d) (predictions st)))
      in (preds, st))"

text \<open>
  \<^verbatim>\<open>get_analytics_summary\<close>. The pipeline groups by breed with a count, sorts by
  descending count and is read up to 100 groups; \<open>total_count\<close> is the field
  \<^verbatim>\<open>total\<close> of the response. \<^verbatim>\<open>by_breed\<close> is a dictionary, kept
  here as the list of its items in insertion order, which is the order
  \<^verbatim>\<open>max(by_breed, key=by_breed.get)\<close> walks: it returns the first key of maximal
  count.
\<close>

definition group_by_breed :: "prediction list \<Rightarrow> (pystr \<times> nat) list" where
  "group_by_breed docs =
     map (\<lambda>b. (b, count_list (map breed docs) b)) (remdups (map breed docs))"

definition aggregate :: "prediction list \<Rightarrow> (pystr \<times> nat) list" where
  "aggregate docs = take 100 (sort_key (\<lambda>a. - int (snd a)) (group_by_breed docs))"

fun max_by_count :: "pystr \<times> nat \<Rightarrow> (pystr \<times> nat) list \<Rightarrow> pystr \<times> nat" where
  "max_by_count best [] = best"
| "max_by_count best (x # xs) = max_by_count (if snd x > snd best then x else best) xs"

record summary =
  by_breed :: "(pystr \<times> nat) list"
  total_count :: nat
  most_common :: "pystr option"

definition get_analytics_summary :: "state \<Rightarrow> summary \<times> state" where
  "get_analytics_summary st =
     (let agg = aggregate (predictions st);
          total_sum = sum_list (map snd agg);
          most = (case agg of [] \<Rightarrow> None | x # xs \<Rightarrow> Some (fst (max_by_count x xs)))
      in (\<lparr>by_breed = agg, total_count = total_sum, most_common = most\<rparr>, st))"

section \<open>Running requests in sequence\<close>

fun run_predict :: "(pystr \<Rightarrow> pystr) \<Rightarrow> (env \<times> upload_file) list \<Rightarrow> state \<Rightarrow> state" where
  "run_predict U [] st = st"
| "run_predict U (r # rs) st = run_predict U rs (snd (predict_cattle_breed U (fst r) (snd r) st))"

section \<open>Sample requests and stores\<close>

text \<open>Concrete inputs on which the results below are evaluated.\<close>

definition holstein_upload :: upload_file where
  "holstein_upload = \<lparr>file_filename = Some (str ''holstein1.png''),
     file_content_type = Some (str ''image/png''), file_contents = [137, 80, 78, 71]\<rparr>"

definition empty_state :: state where
  "empty_state = \<lparr>predictions = [], uploads = [], logged = []\<rparr>"

definition sample_env :: "step list \<Rightarrow> env" where
  "sample_env fs = \<lparr>uuid_temp = str ''t1'', uuid_doc = str ''d1'', now = 100, failing = fs\<rparr>"

definition docs20 :: "prediction list" where
  "docs20 = map (\<lambda>i. \<lparr>doc_id = [i], filename = None, content_type = None, breed = str ''Gir'',
       timestamp = int i\<rparr>) [0..<20]"

definition docs21 :: "prediction list" where
  "docs21 = map (\<lambda>i. \<lparr>doc_id = [i], filename = None, content_type = None, breed = str ''Gir'',
       timestamp = int ((i + 5) mod 21)\<rparr>) [0..<21]"

definition reqs25 :: "(env \<times> upload_file) list" where
  "reqs25 = map (\<lambda>i. (\<lparr>uuid_temp = [i], uuid_doc = [i], now = int i, failing = []\<rparr>,
      \<lparr>file_filename = Some (str ''cow.png''), file_content_type = Some (str ''image/png''),
       file_contents = []\<rparr>)) [0..<25]"

section \<open>Facts about strings and the gate\<close>

lemma is_prefix_iff: "is_prefix kw s \<longleftrightarrow> (\<exists>q. s = kw @ q)"
  by (induction kw s rule: is_prefix.induct) auto

text \<open>\<open>str_in\<close> is the substring test.\<close>

lemma str_in_iff: "str_in kw s \<longleftrightarrow> (\<exists>p q. s = p @ kw @ q)"
proof (induction s)
  case Nil
  then show ?case by auto
next
  case (Cons c cs)
  show ?case
  proof
    assume "str_in kw (c # cs)"
    then consider "is_prefix kw (c # cs)" | "str_in kw cs" by auto
    then show "\<exists>p q. c # cs = p @ kw @ q"
    proof cases
      case 1
      then obtain q where "c # cs = kw @ q" by (auto simp: is_prefix_iff)
      then have "c # cs = [] @ kw @ q" by simp
      then show ?thesis by blast
    next
      case 2
      with Cons obtain p q where "cs = p @ kw @ q" by blast
      then have "c # cs = (c # p) @ kw @ q" by simp
      then show ?thesis by blast
    qed
  next
    assume "\<exists>p q. c # cs = p @ kw @ q"
    then obtain p q where pq: "c # cs = p @ kw @ q" by blast
    show "str_in kw (c # cs)"
    proof (cases p)
      case Nil
      with pq have "is_prefix kw (c # cs)" by (auto simp: is_prefix_iff)
      then show ?thesis by simp
    next
      case (Cons a p')
      with pq have "cs = p' @ kw @ q" by simp
      with Cons.IH have "str_in kw cs" by blast
      then show ?thesis by simp
    qed
  qed
qed

lemma hash_loop_foldl:
  "hash_loop h s = foldl (\<lambda>h ch. (h * 131 + ch) mod 1000003) h s"
  by (induction s arbitrary: h) simp_all

lemma length_BREEDS: "length BREEDS = 5"
  by (simp add: BREEDS_def)

lemma breed_index_less: "breed_index s < length BREEDS"
  by (simp add: breed_index_def length_BREEDS)

lemma mock_breed_choice_in_BREEDS: "mock_breed_choice s \<in> set BREEDS"
  unfolding mock_breed_choice_def using breed_index_less by (rule nth_mem)

lemmas gate_defs = looks_like_cow_def str_def lower_def ascii_lower_def path_suffix_def
  path_name_def path_parts_def ALLOWED_CT_def ALLOWED_EXT_def COW_KEYWORDS_def

lemma lower_Nil: "lower U [] = []"
  by (simp add: lower_def)

lemma Nil_notin_ALLOWED_CT: "[] \<notin> set ALLOWED_CT"
  by (simp add: ALLOWED_CT_def str_def)

lemma Nil_notin_ALLOWED_EXT: "[] \<notin> set ALLOWED_EXT"
  by (simp add: ALLOWED_EXT_def str_def)

lemma path_suffix_Nil: "path_suffix [] = []"
  by (simp add: path_suffix_def path_name_def path_parts_def)

lemma looks_like_cow_unfold:
  "looks_like_cow U fname ctype \<longleftrightarrow>
     (case ctype of None \<Rightarrow> False | Some ct \<Rightarrow> lower U ct \<in> set ALLOWED_CT) \<and>
     (case fname of
        None \<Rightarrow> False
      | Some f \<Rightarrow> lower U (path_suffix f) \<in> set ALLOWED_EXT \<and>
                 list_ex (\<lambda>kw. str_in kw (lower U f)) COW_KEYWORDS)"
  using Nil_notin_ALLOWED_CT Nil_notin_ALLOWED_EXT
  by (auto simp: looks_like_cow_def lower_Nil path_suffix_Nil Let_def split: option.splits)

lemma looks_like_cow_filename:
  "looks_like_cow U fname ctype \<Longrightarrow> \<exists>f. fname = Some f \<and> f \<noteq> []"
  by (auto simp: looks_like_cow_def split: option.splits if_splits)

lemma gate_passed_filename:
  assumes "looks_like_cow U (Some (py_or (file_filename file) [])) ctype"
  shows "\<exists>f. file_filename file = Some f \<and> f \<noteq> []"
proof -
  from assms have "py_or (file_filename file) [] \<noteq> []"
    by (auto dest: looks_like_cow_filename)
  then show ?thesis
    by (auto simp: py_or_def split: option.splits if_splits)
qed

section \<open>The breed selector\<close>

text \<open>
  C1. For every seed the label index is the left fold of
  \<open>h \<mapsto> (h * 131 + code point) mod 1000003\<close> over the characters of the seed, from 0,
  taken modulo the number of breeds; it is below the number of breeds, so the label is
  an element of the breed list; for the empty seed the index is 0 and the label is
  Jersey.
\<close>

theorem breed_index_fold:
  "breed_index seed = foldl (\<lambda>h ch. (h * 131 + ch) mod 1000003) 0 seed mod length BREEDS
   \<and> breed_index seed < length BREEDS
   \<and> length BREEDS = 5
   \<and> mock_breed_choice seed = BREEDS ! breed_index seed
   \<and> mock_breed_choice seed \<in> set BREEDS
   \<and> breed_index [] = 0
   \<and> mock_breed_choice [] = str ''Jersey''"
proof -
  have fold: "breed_index seed = foldl (\<lambda>h ch. (h * 131 + ch) mod 1000003) 0 seed mod length BREEDS"
    by (simp add: breed_index_def hash_loop_foldl)
  have empty: "breed_index [] = 0"
    by (simp add: breed_index_def)
  have jersey: "mock_breed_choice [] = str ''Jersey''"
    by (simp add: mock_breed_choice_def empty) (simp add: BREEDS_def)
  from fold breed_index_less [of seed] mock_breed_choice_in_BREEDS [of seed] empty jersey
    length_BREEDS
  show ?thesis
    by (simp add: mock_breed_choice_def)
qed

section \<open>The upload gate\<close>

text \<open>
  C9. The gate accepts the filename jersey_cow.jpg with content type image/jpeg,
  rejects cow.bmp with image/png, and rejects a missing filename with image/png.
\<close>

theorem gate_examples:
  "looks_like_cow U (Some (str ''jersey_cow.jpg'')) (Some (str ''image/jpeg'')) = True
   \<and> looks_like_cow U (Some (str ''cow.bmp'')) (Some (str ''image/png'')) = False
   \<and> looks_like_cow U None (Some (str ''image/png'')) = False"
proof -
  have a: "looks_like_cow U (Some (str ''jersey_cow.jpg'')) (Some (str ''image/jpeg''))"
    by (simp add: gate_defs)
  have b: "\<not> looks_like_cow U (Some (str ''cow.bmp'')) (Some (str ''image/png''))"
    by (simp add: gate_defs)
  have c: "\<not> looks_like_cow U None (Some (str ''image/png''))"
    by (simp add: gate_defs)
  from a b c show ?thesis by simp
qed

text \<open>
  C2, as stated, fails. The gate takes the extension from the last component of the
  path, so it accepts the filename cow.jpg/ with content type image/jpeg, whose part
  from the last dot on is .jpg/ and not an allowed extension.
\<close>

theorem gate_extension_counterexample:
  "looks_like_cow id (Some (str ''cow.jpg/'')) (Some (str ''image/jpeg''))
   \<and> \<not> spec_accept id (Some (str ''cow.jpg/'')) (Some (str ''image/jpeg''))"
  by (simp add: gate_defs spec_accept_def spec_extension_def)

text \<open>
  C2, amended. The gate accepts exactly when the content type is present and its
  lowercase form is an allowed content type, the filename is present, the lowercase
  form of the suffix of the filename's last path component is an allowed extension, and
  a cattle keyword occurs in the lowercased filename. Without a filename, and with an
  empty one, nothing is accepted.
\<close>

theorem gate_accepts_iff:
  "(looks_like_cow U fname ctype \<longleftrightarrow>
      (case ctype of None \<Rightarrow> False | Some ct \<Rightarrow> lower U ct \<in> set ALLOWED_CT) \<and>
      (case fname of
         None \<Rightarrow> False
       | Some f \<Rightarrow> lower U (path_suffix f) \<in> set ALLOWED_EXT \<and>
                  (\<exists>kw \<in> set COW_KEYWORDS. \<exists>p q. lower U f = p @ kw @ q)))
   \<and> \<not> looks_like_cow U None ctype
   \<and> \<not> looks_like_cow U (Some []) ctype"
proof -
  have a: "list_ex (\<lambda>kw. str_in kw s) COW_KEYWORDS \<longleftrightarrow>
      (\<exists>kw \<in> set COW_KEYWORDS. \<exists>p q. s = p @ kw @ q)" for s
    by (simp add: list_ex_iff str_in_iff)
  have b: "\<not> looks_like_cow U None ctype" "\<not> looks_like_cow U (Some []) ctype"
    using looks_like_cow_filename [of U None ctype] looks_like_cow_filename [of U "Some []" ctype]
    by auto
  show ?thesis
    using b by (simp add: looks_like_cow_unfold [of U fname ctype] a split: option.splits)
qed

theorem gate_accepts_iff_witness:
  "looks_like_cow id (Some (str ''Gir_Bull.PNG'')) (Some (str ''IMAGE/png''))
   \<and> lower id (path_suffix (str ''Gir_Bull.PNG'')) = str ''.png''
   \<and> \<not> looks_like_cow id (Some (str ''sunset.jpg'')) (Some (str ''image/jpeg''))
   \<and> \<not> looks_like_cow id None (Some (str ''image/png''))"
proof -
  have s: "lower id (path_suffix (str ''Gir_Bull.PNG'')) = str ''.png''"
    by (simp add: gate_defs)
  have k: "str ''gir'' \<in> set COW_KEYWORDS \<and> lower id (str ''Gir_Bull.PNG'') = [] @ str ''gir'' @ str ''_bull.png''"
    by (simp add: gate_defs)
  then have "\<exists>kw \<in> set COW_KEYWORDS. \<exists>p q. lower id (str ''Gir_Bull.PNG'') = p @ kw @ q"
    by blast
  moreover have "lower id (str ''IMAGE/png'') \<in> set ALLOWED_CT"
    by (simp add: gate_defs)
  moreover have "str ''.png'' \<in> set ALLOWED_EXT"
    by (simp add: gate_defs)
  ultimately have 1: "looks_like_cow id (Some (str ''Gir_Bull.PNG'')) (Some (str ''IMAGE/png''))"
    using gate_accepts_iff [of id "Some (str ''Gir_Bull.PNG'')" "Some (str ''IMAGE/png'')"] s
    by simp
  have 2: "\<not> looks_like_cow id (Some (str ''sunset.jpg'')) (Some (str ''image/jpeg''))"
    by (simp add: gate_defs)
  have 3: "\<not> looks_like_cow id None (Some (str ''image/png''))"
    using gate_accepts_iff [of id None "Some (str ''image/png'')"] by simp
  from 1 s 2 3 show ?thesis by simp
qed

text \<open>
  C10. When the gate, called as the prediction service calls it, accepts an upload, the
  upload has a filename and it is not empty, so the seed is that filename and never the
  literal default; a response computed from it carries the breed chosen for the
  filename.
\<close>

theorem seed_is_filename:
  assumes "looks_like_cow U (Some (py_or (file_filename file) [])) (file_content_type file)"
  shows "\<exists>f. file_filename file = Some f \<and> f \<noteq> [] \<and> seed_of file = f
           \<and> (\<forall>e st r st'. predict_body e file st = (Inr r, st') \<longrightarrow>
                  r = Breed_response (mock_breed_choice f))"
proof -
  from assms obtain f where f: "file_filename file = Some f" "f \<noteq> []"
    using gate_passed_filename by blast
  then have seed: "seed_of file = f"
    by (simp add: seed_of_def py_or_def)
  have "r = Breed_response (mock_breed_choice f)"
    if "predict_body e file st = (Inr r, st')" for e st r st'
    using that seed
    by (auto simp: predict_body_def Let_def split: sum.splits)
  with f seed show ?thesis by blast
qed

theorem seed_is_filename_witness:
  "looks_like_cow id (Some (py_or (Some (str ''jersey_cow.jpg'')) [])) (Some (str ''image/jpeg''))
   \<and> seed_of \<lparr>file_filename = Some (str ''jersey_cow.jpg''),
               file_content_type = Some (str ''image/jpeg''), file_contents = []\<rparr>
       = str ''jersey_cow.jpg''"
proof -
  have g: "looks_like_cow id (Some (py_or (Some (str ''jersey_cow.jpg'')) [])) (Some (str ''image/jpeg''))"
    by (simp add: gate_defs py_or_def)
  then show ?thesis
    using seed_is_filename [of id "\<lparr>file_filename = Some (str ''jersey_cow.jpg''),
               file_content_type = Some (str ''image/jpeg''), file_contents = []\<rparr>"]
    by auto
qed

section \<open>Rejected uploads\<close>

text \<open>
  C6. When the content type is missing or the gate rejects the upload, the prediction
  service answers with status 400 and a reason, which asks for an image file in the
  first case and says that the image does not appear to be a cow in the second, and the
  state after the call is the state before it: no record is stored, nothing is written
  or logged.
\<close>

theorem rejected_predict:
  assumes "file_content_type file = None
           \<or> \<not> looks_like_cow U (Some (py_or (file_filename file) [])) (file_content_type file)"
  shows "\<exists>detail. detail \<noteq> [] \<and>
           detail = (if file_content_type file = None then ''Please upload an image file''
                     else ''Uploaded image does not appear to be a cow (mock heuristic)'') \<and>
           predict_cattle_breed U e file st = (HTTPException 400 detail, st) \<and>
           length (predictions (snd (predict_cattle_breed U e file st))) = length (predictions st)"
  using assms
  by (cases "file_content_type file") (auto simp: predict_cattle_breed_def)

theorem rejected_predict_witness:
  "\<not> looks_like_cow id (Some (py_or (Some (str ''sunset.jpg'')) [])) (Some (str ''image/jpeg''))
   \<and> snd (predict_cattle_breed id
         \<lparr>uuid_temp = str ''t1'', uuid_doc = str ''d1'', now = 7, failing = []\<rparr>
         \<lparr>file_filename = Some (str ''sunset.jpg''),
          file_content_type = Some (str ''image/jpeg''), file_contents = [1, 2]\<rparr>
         \<lparr>predictions = [], uploads = [], logged = []\<rparr>)
       = \<lparr>predictions = [], uploads = [], logged = []\<rparr>
   \<and> predict_cattle_breed id
         \<lparr>uuid_temp = str ''t1'', uuid_doc = str ''d1'', now = 7, failing = []\<rparr>
         \<lparr>file_filename = Some (str ''cow.png''),
          file_content_type = None, file_contents = [1, 2]\<rparr>
         \<lparr>predictions = [], uploads = [], logged = []\<rparr>
       = (HTTPException 400 ''Please upload an image file'',
          \<lparr>predictions = [], uploads = [], logged = []\<rparr>)"
proof -
  have g: "\<not> looks_like_cow id (Some (py_or (Some (str ''sunset.jpg'')) [])) (Some (str ''image/jpeg''))"
    by (simp add: gate_defs py_or_def)
  have a: "snd (predict_cattle_breed id
         \<lparr>uuid_temp = str ''t1'', uuid_doc = str ''d1'', now = 7, failing = []\<rparr>
         \<lparr>file_filename = Some (str ''sunset.jpg''),
          file_content_type = Some (str ''image/jpeg''), file_contents = [1, 2]\<rparr>
         \<lparr>predictions = [], uploads = [], logged = []\<rparr>)
       = \<lparr>predictions = [], uploads = [], logged = []\<rparr>"
    using g rejected_predict [of "\<lparr>file_filename = Some (str ''sunset.jpg''),
          file_content_type = Some (str ''image/jpeg''), file_contents = [1, 2]\<rparr>" id
          "\<lparr>uuid_temp = str ''t1'', uuid_doc = str ''d1'', now = 7, failing = []\<rparr>"
          "\<lparr>predictions = [], uploads = [], logged = []\<rparr>"]
    by auto
  have b: "predict_cattle_breed id
         \<lparr>uuid_temp = str ''t1'', uuid_doc = str ''d1'', now = 7, failing = []\<rparr>
         \<lparr>file_filename = Some (str ''cow.png''),
          file_content_type = None, file_contents = [1, 2]\<rparr>
         \<lparr>predictions = [], uploads = [], logged = []\<rparr>
       = (HTTPException 400 ''Please upload an image file'',
          \<lparr>predictions = [], uploads = [], logged = []\<rparr>)"
    by (simp add: predict_cattle_breed_def)
  from g a b show ?thesis by simp
qed

section \<open>Facts about the store\<close>

lemma sorted_take_drop_le:
  assumes "sorted (map f xs)" and "x \<in> set (take k xs)" and "y \<in> set (drop k xs)"
  shows "f x \<le> f y"
proof -
  have "sorted (map f (take k xs) @ map f (drop k xs))"
    using assms(1) by (simp flip: map_append)
  with assms(2,3) show ?thesis
    by (auto simp: sorted_append)
qed

lemma length_filter_notin:
  assumes "distinct xs" and "distinct ts" and "set ts \<subseteq> set xs"
  shows "length (filter (\<lambda>d. d \<notin> set ts) xs) = length xs - length ts"
proof -
  let ?ys = "filter (\<lambda>d. d \<notin> set ts) xs"
  have "distinct ?ys"
    using assms(1) by simp
  then have "length ?ys = card (set ?ys)"
    by (rule distinct_card [symmetric])
  also have "set ?ys = set xs - set ts"
    by auto
  also have "card (set xs - set ts) = card (set xs) - card (set ts)"
    using assms(3) by (simp add: card_Diff_subset)
  also have "card (set xs) = length xs"
    using assms(1) by (rule distinct_card)
  also have "card (set ts) = length ts"
    using assms(2) by (rule distinct_card)
  finally show ?thesis .
qed

lemma filter_ids_eq:
  assumes "distinct (map doc_id docs)" and "set ts \<subseteq> set docs"
  shows "filter (\<lambda>d. doc_id d \<notin> set (map doc_id ts)) docs = filter (\<lambda>d. d \<notin> set ts) docs"
proof (rule filter_cong [OF refl])
  fix d assume d: "d \<in> set docs"
  from assms(1) have inj: "inj_on doc_id (set docs)"
    by (simp add: distinct_map)
  show "(doc_id d \<notin> set (map doc_id ts)) = (d \<notin> set ts)"
    using inj d assms(2) by (auto dest: inj_onD)
qed

lemma prune_no_fault:
  assumes "prune_ok e"
  shows "prune e docs =
     Inr (if 20 < length docs
          then filter (\<lambda>d. doc_id d \<notin> set (map doc_id (take (length docs - 20) (sort_key timestamp docs)))) docs
          else docs)"
proof (cases "20 < length docs")
  case True
  then have "length (take (length docs - 20) (sort_key timestamp docs)) \<noteq> 0"
    by simp
  then have "take (length docs - 20) (sort_key timestamp docs) \<noteq> []"
    by (simp only: length_0_conv not_False_eq_True)
  with True assms show ?thesis
    by (simp add: prune_def prune_ok_def count_documents_def find_oldest_ids_def delete_many_def)
next
  case False
  with assms show ?thesis
    by (simp add: prune_def prune_ok_def count_documents_def)
qed

lemma prune_small:
  assumes "length docs \<le> 20"
  shows "try_prune e docs = docs"
  using assms by (simp add: try_prune_def prune_def count_documents_def split: sum.splits)

lemma prune_result:
  assumes "distinct (map doc_id docs)" and "prune_ok e" and "20 < length docs"
  shows "prune e docs =
     Inr (filter (\<lambda>d. d \<notin> set (take (length docs - 20) (sort_key timestamp docs))) docs)"
proof -
  have "set (take (length docs - 20) (sort_key timestamp docs)) \<subseteq> set docs"
    using set_take_subset [of "length docs - 20" "sort_key timestamp docs"] by simp
  with assms(1) have "filter (\<lambda>d. doc_id d \<notin> set (map doc_id (take (length docs - 20) (sort_key timestamp docs)))) docs
      = filter (\<lambda>d. d \<notin> set (take (length docs - 20) (sort_key timestamp docs))) docs"
    by (rule filter_ids_eq)
  with assms(2,3) show ?thesis
    by (simp only: prune_no_fault if_True)
qed

lemma prune_length:
  assumes "distinct (map doc_id docs)" and "20 < length docs"
  shows "length (filter (\<lambda>d. d \<notin> set (take (length docs - 20) (sort_key timestamp docs))) docs) = 20"
proof -
  let ?ts = "take (length docs - 20) (sort_key timestamp docs)"
  from assms(1) have d: "distinct docs"
    by (rule distinct_map [THEN iffD1, THEN conjunct1])
  then have "distinct ?ts" by simp
  moreover have "set ?ts \<subseteq> set docs"
    using set_take_subset [of "length docs - 20" "sort_key timestamp docs"] by simp
  ultimately have "length (filter (\<lambda>d. d \<notin> set ?ts) docs) = length docs - length ?ts"
    using d by (intro length_filter_notin)
  with assms(2) show ?thesis by simp
qed

lemma prune_oldest:
  assumes "distinct (map doc_id docs)"
      and "d \<in> set (take n (sort_key timestamp docs))"
      and "k \<in> set docs" and "k \<notin> set (take n (sort_key timestamp docs))"
  shows "timestamp d \<le> timestamp k"
proof -
  let ?s = "sort_key timestamp docs"
  have "k \<in> set (take n ?s @ drop n ?s)"
    using assms(3) by simp
  with assms(4) have "k \<in> set (drop n ?s)"
    by (simp only: set_append) blast
  with assms(2) show ?thesis
    using sorted_take_drop_le [of timestamp ?s d n k] by simp
qed

lemma try_prune_distinct:
  assumes "distinct (map doc_id docs)"
  shows "distinct (map doc_id (try_prune e docs))"
proof -
  have "try_prune e docs = docs \<or> (\<exists>P. try_prune e docs = filter P docs)"
    by (auto simp: try_prune_def prune_def count_documents_def find_oldest_ids_def
        delete_many_def split: sum.splits if_splits)
  with assms show ?thesis
    by (auto simp: distinct_map_filter)
qed

lemma try_prune_length:
  assumes "distinct (map doc_id docs)" and "prune_ok e"
  shows "length (try_prune e docs) = min (length docs) 20"
proof (cases "20 < length docs")
  case True
  with assms show ?thesis
    by (simp add: try_prune_def prune_result prune_length)
next
  case False
  then show ?thesis by (simp add: prune_small)
qed

text \<open>What a call of the prediction service does to the stored records.\<close>

lemma predict_predictions:
  "predictions (snd (predict_cattle_breed U e file st)) = predictions st
   \<or> (\<exists>doc. doc_id doc = uuid_doc e \<and> uuid_doc e \<notin> set (map doc_id (predictions st))
         \<and> breed doc \<in> set BREEDS
         \<and> predictions (snd (predict_cattle_breed U e file st)) = try_prune e (predictions st @ [doc]))"
proof (cases "predict_body e file st")
  case (Pair r st')
  have body: "predictions st' = predictions st
     \<or> (\<exists>doc. doc_id doc = uuid_doc e \<and> uuid_doc e \<notin> set (map doc_id (predictions st))
           \<and> breed doc \<in> set BREEDS
           \<and> predictions st' = try_prune e (predictions st @ [doc]))"
  proof (cases r)
    case (Inl err)
    with Pair have "predictions st' = predictions st"
      by (auto simp: predict_body_def Let_def split: sum.splits)
    then show ?thesis ..
  next
    case (Inr resp)
    let ?doc = "\<lparr>doc_id = uuid_doc e, filename = file_filename file,
        content_type = file_content_type file, breed = mock_breed_choice (seed_of file),
        timestamp = now e\<rparr>"
    from Pair Inr have "uuid_doc e \<notin> set (map doc_id (predictions st))"
      and "predictions st' = try_prune e (predictions st @ [?doc])"
      by (auto simp: predict_body_def insert_one_def write_file_def Let_def
          split: sum.splits if_splits)
    moreover have "doc_id ?doc = uuid_doc e" and "breed ?doc \<in> set BREEDS"
      by (simp_all add: mock_breed_choice_in_BREEDS)
    ultimately show ?thesis by blast
  qed
  show ?thesis
  proof (cases "file_content_type file")
    case None
    then show ?thesis by (simp add: predict_cattle_breed_def)
  next
    case (Some ct)
    show ?thesis
    proof (cases "looks_like_cow U (Some (py_or (file_filename file) [])) (Some ct)")
      case False
      with Some show ?thesis by (simp add: predict_cattle_breed_def)
    next
      case True
      with Some Pair have "predictions (snd (predict_cattle_breed U e file st)) = predictions st'"
        by (cases r) (simp_all add: predict_cattle_breed_def)
      with body show ?thesis by simp
    qed
  qed
qed

lemma predict_distinct:
  assumes "distinct (map doc_id (predictions st))"
  shows "distinct (map doc_id (predictions (snd (predict_cattle_breed U e file st))))"
  using predict_predictions [of U e "file" st] assms
  by (auto intro!: try_prune_distinct)

lemma try_prune_subset: "set (try_prune e docs) \<subseteq> set docs"
  by (auto simp: try_prune_def prune_def count_documents_def find_oldest_ids_def
      delete_many_def split: sum.splits if_splits)

text \<open>Every record that the prediction service stores has a breed of the breed list.\<close>

lemma predict_breeds:
  assumes "set (map breed (predictions st)) \<subseteq> set BREEDS"
  shows "set (map breed (predictions (snd (predict_cattle_breed U e file st)))) \<subseteq> set BREEDS"
proof -
  from predict_predictions [of U e "file" st]
  consider "predictions (snd (predict_cattle_breed U e file st)) = predictions st"
    | doc where "breed doc \<in> set BREEDS"
        "predictions (snd (predict_cattle_breed U e file st)) = try_prune e (predictions st @ [doc])"
    by blast
  then show ?thesis
  proof cases
    case 1
    with assms show ?thesis by simp
  next
    case 2
    have "set (try_prune e (predictions st @ [doc])) \<subseteq> set (predictions st @ [doc])"
      by (rule try_prune_subset)
    with 2 assms show ?thesis by auto
  qed
qed

lemma predict_bounded:
  assumes "distinct (map doc_id (predictions st))" and "length (predictions st) \<le> 20"
      and "prune_ok e"
  shows "length (predictions (snd (predict_cattle_breed U e file st))) \<le> 20"
  using predict_predictions [of U e "file" st] assms
  by (auto simp: try_prune_length)

lemma run_predict_bounded:
  assumes "distinct (map doc_id (predictions st))" and "length (predictions st) \<le> 20"
      and "\<forall>r \<in> set rs. prune_ok (fst r)"
  shows "distinct (map doc_id (predictions (run_predict U rs st)))
         \<and> length (predictions (run_predict U rs st)) \<le> 20"
  using assms
proof (induction rs arbitrary: st)
  case Nil
  then show ?case by simp
next
  case (Cons r rs)
  let ?st = "snd (predict_cattle_breed U (fst r) (snd r) st)"
  have "distinct (map doc_id (predictions ?st))"
    using Cons.prems(1) by (rule predict_distinct)
  moreover have "length (predictions ?st) \<le> 20"
    using Cons.prems by (intro predict_bounded) auto
  ultimately show ?case
    using Cons.IH [of ?st] Cons.prems(3) by simp
qed

text \<open>
  The stores that the prediction service builds from the empty store have distinct keys
  and breeds of the breed list, whatever fails on the way.
\<close>

lemma run_predict_invariant:
  assumes "distinct (map doc_id (predictions st))"
      and "set (map breed (predictions st)) \<subseteq> set BREEDS"
  shows "distinct (map doc_id (predictions (run_predict U rs st)))
         \<and> set (map breed (predictions (run_predict U rs st))) \<subseteq> set BREEDS"
  using assms
proof (induction rs arbitrary: st)
  case Nil
  then show ?case by simp
next
  case (Cons r rs)
  let ?st = "snd (predict_cattle_breed U (fst r) (snd r) st)"
  have "distinct (map doc_id (predictions ?st))"
    using Cons.prems(1) by (rule predict_distinct)
  moreover have "set (map breed (predictions ?st)) \<subseteq> set BREEDS"
    using Cons.prems(2) by (rule predict_breeds)
  ultimately show ?case
    using Cons.IH [of ?st] by simp
qed

section \<open>Retention\<close>

text \<open>
  C3. When the store's keys are distinct and the store calls of the pruning step
  succeed, the step leaves a store of at most 20 records alone, and from a larger one it
  deletes the records found by sorting on ascending timestamp and taking the first
  count - 20, exactly those: 20 records stay, and no deleted record is newer than a
  record that stays. So from the empty store, after any sequence of prediction requests
  whose pruning steps succeed (25 of them, say), at most 20 records are stored.
\<close>

theorem prune_retention:
  assumes "distinct (map doc_id docs)" and "prune_ok e"
  shows "\<exists>kept. prune e docs = Inr kept \<and>
      (length docs \<le> 20 \<longrightarrow> kept = docs) \<and>
      (20 < length docs \<longrightarrow>
         kept = filter (\<lambda>d. d \<notin> set (take (length docs - 20) (sort_key timestamp docs))) docs \<and>
         set docs - set kept = set (take (length docs - 20) (sort_key timestamp docs)) \<and>
         length kept = 20 \<and>
         (\<forall>d \<in> set docs - set kept. \<forall>k \<in> set kept. timestamp d \<le> timestamp k)) \<and>
      ((\<forall>r \<in> set rs. prune_ok (fst r)) \<longrightarrow>
         length (predictions (run_predict U rs \<lparr>predictions = [], uploads = fs, logged = lg\<rparr>)) \<le> 20)"
proof -
  let ?ts = "take (length docs - 20) (sort_key timestamp docs)"
  let ?kept = "filter (\<lambda>d. d \<notin> set ?ts) docs"
  have sub: "set ?ts \<subseteq> set docs"
    using set_take_subset [of "length docs - 20" "sort_key timestamp docs"] by simp
  have run: "length (predictions (run_predict U rs \<lparr>predictions = [], uploads = fs, logged = lg\<rparr>)) \<le> 20"
    if "\<forall>r \<in> set rs. prune_ok (fst r)"
    using run_predict_bounded [of "\<lparr>predictions = [], uploads = fs, logged = lg\<rparr>" rs U] that
    by simp
  show ?thesis
  proof (cases "20 < length docs")
    case False
    with assms(2) have "prune e docs = Inr docs"
      by (simp add: prune_no_fault)
    with False run show ?thesis by simp
  next
    case True
    have 1: "prune e docs = Inr ?kept"
      using assms True by (rule prune_result)
    have 2: "set docs - set ?kept = set ?ts"
      using sub by auto
    have 3: "length ?kept = 20"
      using assms(1) True by (rule prune_length)
    have 4: "\<forall>d \<in> set docs - set ?kept. \<forall>k \<in> set ?kept. timestamp d \<le> timestamp k"
    proof (intro ballI)
      fix d k assume "d \<in> set docs - set ?kept" and "k \<in> set ?kept"
      then have "d \<in> set ?ts" and "k \<in> set docs" and "k \<notin> set ?ts"
        using 2 by auto
      with assms(1) show "timestamp d \<le> timestamp k"
        by (intro prune_oldest [of docs d "length docs - 20" k])
    qed
    from True 1 2 3 4 run show ?thesis by simp
  qed
qed

theorem prune_retention_witness:
  "distinct (map doc_id docs21)
   \<and> prune_ok \<lparr>uuid_temp = [], uuid_doc = [], now = 0, failing = [Unlink]\<rparr>
   \<and> length docs21 = 21
   \<and> map doc_id (take 1 (sort_key timestamp docs21)) = [[16]]
   \<and> (\<exists>kept. prune \<lparr>uuid_temp = [], uuid_doc = [], now = 0, failing = [Unlink]\<rparr> docs21 = Inr kept
        \<and> length kept = 20 \<and> map doc_id kept = map (\<lambda>i. [i]) ([0..<16] @ [17..<21]))
   \<and> length reqs25 = 25
   \<and> length (predictions (run_predict id reqs25 \<lparr>predictions = [], uploads = [], logged = []\<rparr>)) \<le> 20"
proof -
  let ?e = "\<lparr>uuid_temp = [], uuid_doc = [], now = 0, failing = [Unlink]\<rparr>"
  have d: "distinct (map doc_id docs21)"
    unfolding docs21_def by code_simp
  have ok: "prune_ok ?e"
    by (simp add: prune_ok_def)
  have len: "length docs21 = 21"
    by (simp add: docs21_def)
  have oldest: "map doc_id (take 1 (sort_key timestamp docs21)) = [[16]]"
    unfolding docs21_def by code_simp
  have ids: "map doc_id (filter (\<lambda>d. d \<notin> set (take (length docs21 - 20) (sort_key timestamp docs21))) docs21)
      = map (\<lambda>i. [i]) ([0..<16] @ [17..<21])"
    unfolding docs21_def by code_simp
  have reqs: "\<forall>r \<in> set reqs25. prune_ok (fst r)"
    by (auto simp: reqs25_def prune_ok_def)
  have len25: "length reqs25 = 25"
    by (simp add: reqs25_def)
  from prune_retention [OF d ok, of reqs25 id "[]" "[]"] len reqs ids
  have "(\<exists>kept. prune ?e docs21 = Inr kept
        \<and> length kept = 20 \<and> map doc_id kept = map (\<lambda>i. [i]) ([0..<16] @ [17..<21]))"
    and "length (predictions (run_predict id reqs25 \<lparr>predictions = [], uploads = [], logged = []\<rparr>)) \<le> 20"
    by auto
  with d ok len oldest len25 show ?thesis by simp
qed

section \<open>Accepted uploads\<close>

text \<open>
  What the prediction service does with an accepted upload when reading it, writing the
  scratch file and inserting the record succeed.
\<close>

lemma accepted_run:
  assumes "file_content_type file = Some ct"
      and "looks_like_cow U (Some (py_or (file_filename file) [])) (Some ct)"
      and "Read \<notin> set (failing e)" and "Write \<notin> set (failing e)"
      and "Insert \<notin> set (failing e)"
      and "uuid_doc e \<notin> set (map doc_id (predictions st))"
  shows "\<exists>f. file_filename file = Some f \<and> f \<noteq> [] \<and>
     predict_cattle_breed U e file st =
       (Breed_response (mock_breed_choice f),
        st\<lparr>uploads := try_unlink e (uuid_temp e @ path_suffix f)
                (filter (\<lambda>x. fst x \<noteq> uuid_temp e @ path_suffix f) (uploads st)
                 @ [(uuid_temp e @ path_suffix f, file_contents file)]),
           predictions := try_prune e (predictions st @
                [\<lparr>doc_id = uuid_doc e, filename = Some f, content_type = Some ct,
                  breed = mock_breed_choice f, timestamp = now e\<rparr>])\<rparr>)"
proof -
  from assms(2) obtain f where f: "file_filename file = Some f" "f \<noteq> []"
    using gate_passed_filename by blast
  then have seed: "seed_of file = f"
    by (simp add: seed_of_def py_or_def)
  from assms f seed show ?thesis
    by (simp add: predict_cattle_breed_def predict_body_def read_upload_def write_file_def
        insert_one_def Let_def)
qed

lemma prune_fails:
  assumes "\<not> prune_ok e" and "20 < length docs"
  shows "try_prune e docs = docs"
  using assms
  by (auto simp: try_prune_def prune_def prune_ok_def count_documents_def find_oldest_ids_def
      delete_many_def split: sum.splits)

lemma holstein_gate:
  "looks_like_cow U (Some (py_or (file_filename holstein_upload) [])) (Some (str ''image/png''))"
  by (simp add: holstein_upload_def py_or_def gate_defs)

lemma holstein_breed: "mock_breed_choice (str ''holstein1.png'') = str ''Gir''"
  by (simp add: mock_breed_choice_def breed_index_def BREEDS_def str_def)

text \<open>
  C5, as stated, fails. With 20 records stored, the accepted upload holstein1.png gets
  its answer and its record is inserted, but the pruning step then deletes the oldest
  record: 20 records are stored after the call, not 21.
\<close>

theorem predict_count_counterexample:
  "length (predictions (empty_state\<lparr>predictions := docs20\<rparr>)) = 20
   \<and> fst (predict_cattle_breed id (sample_env []) holstein_upload (empty_state\<lparr>predictions := docs20\<rparr>))
       = Breed_response (str ''Gir'')
   \<and> length (predictions (snd (predict_cattle_breed id (sample_env []) holstein_upload
         (empty_state\<lparr>predictions := docs20\<rparr>)))) = 20"
proof -
  let ?st = "empty_state\<lparr>predictions := docs20\<rparr>"
  let ?doc = "\<lparr>doc_id = str ''d1'', filename = Some (str ''holstein1.png''),
      content_type = Some (str ''image/png''), breed = mock_breed_choice (str ''holstein1.png''),
      timestamp = 100\<rparr>"
  have len: "length (predictions ?st) = 20"
    by (simp add: docs20_def)
  have ids: "map doc_id docs20 = map (\<lambda>i. [i]) [0..<20]"
    by (simp add: docs20_def)
  have fresh: "uuid_doc (sample_env []) \<notin> set (map doc_id (predictions ?st))"
    by (auto simp: ids sample_env_def str_def)
  have "distinct (map doc_id docs20)"
    unfolding ids by (simp add: distinct_map inj_on_def)
  with fresh have dist: "distinct (map doc_id (predictions ?st @ [?doc]))"
    by (simp add: sample_env_def)
  have ok: "prune_ok (sample_env [])"
    by (simp add: prune_ok_def sample_env_def)
  from accepted_run [of holstein_upload "str ''image/png''" id "sample_env []" ?st]
    holstein_gate [of id] fresh
  have "fst (predict_cattle_breed id (sample_env []) holstein_upload ?st)
          = Breed_response (mock_breed_choice (str ''holstein1.png''))"
    and "predictions (snd (predict_cattle_breed id (sample_env []) holstein_upload ?st))
          = try_prune (sample_env []) (predictions ?st @ [?doc])"
    by (auto simp: holstein_upload_def sample_env_def)
  with try_prune_length [OF dist ok] len show ?thesis
    by (simp add: holstein_breed)
qed

text \<open>
  C5, amended. For every accepted upload whose reading, scratch write and insert
  succeed, the key being new in a store of distinct keys, the prediction service
  answers with the breed that the breed list holds at the seed hash of the filename and
  inserts exactly one record, whose breed is that label. The number of stored records
  grows by exactly 1 when fewer than 20 were stored before, or when the pruning step
  fails; otherwise the pruning step that follows the insert leaves exactly 20.
\<close>

theorem predict_accepted_upload:
  assumes "file_content_type file = Some ct"
      and "looks_like_cow U (Some (py_or (file_filename file) [])) (Some ct)"
      and "Read \<notin> set (failing e)" and "Write \<notin> set (failing e)"
      and "Insert \<notin> set (failing e)"
      and "uuid_doc e \<notin> set (map doc_id (predictions st))"
      and "distinct (map doc_id (predictions st))"
  shows "\<exists>f doc st'.
      file_filename file = Some f \<and>
      doc = \<lparr>doc_id = uuid_doc e, filename = Some f, content_type = Some ct,
             breed = BREEDS ! breed_index f, timestamp = now e\<rparr> \<and>
      predict_cattle_breed U e file st = (Breed_response (BREEDS ! breed_index f), st') \<and>
      insert_one e doc (predictions st) = Inr (predictions st @ [doc]) \<and>
      predictions st' = try_prune e (predictions st @ [doc]) \<and>
      (length (predictions st) < 20 \<longrightarrow>
         predictions st' = predictions st @ [doc] \<and>
         length (predictions st') = length (predictions st) + 1) \<and>
      (20 \<le> length (predictions st) \<and> \<not> prune_ok e \<longrightarrow>
         predictions st' = predictions st @ [doc] \<and>
         length (predictions st') = length (predictions st) + 1) \<and>
      (20 \<le> length (predictions st) \<and> prune_ok e \<longrightarrow> length (predictions st') = 20)"
proof -
  from accepted_run [OF assms(1-6)] obtain f where
    f: "file_filename file = Some f" and
    p: "predict_cattle_breed U e file st =
       (Breed_response (mock_breed_choice f),
        st\<lparr>uploads := try_unlink e (uuid_temp e @ path_suffix f)
                (filter (\<lambda>x. fst x \<noteq> uuid_temp e @ path_suffix f) (uploads st)
                 @ [(uuid_temp e @ path_suffix f, file_contents file)]),
           predictions := try_prune e (predictions st @
                [\<lparr>doc_id = uuid_doc e, filename = Some f, content_type = Some ct,
                  breed = mock_breed_choice f, timestamp = now e\<rparr>])\<rparr>)"
    by blast
  define doc where "doc = \<lparr>doc_id = uuid_doc e, filename = Some f, content_type = Some ct,
             breed = BREEDS ! breed_index f, timestamp = now e\<rparr>"
  define st' where "st' = snd (predict_cattle_breed U e file st)"
  have resp: "predict_cattle_breed U e file st = (Breed_response (BREEDS ! breed_index f), st')"
    by (simp add: p st'_def mock_breed_choice_def)
  have ins: "insert_one e doc (predictions st) = Inr (predictions st @ [doc])"
    using assms(5,6) by (simp add: insert_one_def doc_def)
  have preds: "predictions st' = try_prune e (predictions st @ [doc])"
    by (simp add: p st'_def doc_def mock_breed_choice_def)
  have dist: "distinct (map doc_id (predictions st @ [doc]))"
    using assms(6,7) by (simp add: doc_def)
  have small: "predictions st' = predictions st @ [doc]" if "length (predictions st) < 20"
    using that by (simp add: preds prune_small)
  have failed: "predictions st' = predictions st @ [doc]"
    if "20 \<le> length (predictions st)" and "\<not> prune_ok e"
    using that by (simp add: preds prune_fails)
  have pruned: "length (predictions st') = 20"
    if "20 \<le> length (predictions st)" and "prune_ok e"
    using that try_prune_length [OF dist] by (simp add: preds)
  from f resp ins preds small failed pruned doc_def show ?thesis
    by auto
qed

theorem predict_accepted_upload_witness:
  "looks_like_cow id (Some (py_or (file_filename holstein_upload) [])) (Some (str ''image/png''))
   \<and> fst (predict_cattle_breed id (sample_env []) holstein_upload empty_state)
       = Breed_response (str ''Gir'')
   \<and> predictions (snd (predict_cattle_breed id (sample_env []) holstein_upload empty_state))
       = [\<lparr>doc_id = str ''d1'', filename = Some (str ''holstein1.png''),
           content_type = Some (str ''image/png''), breed = str ''Gir'', timestamp = 100\<rparr>]"
proof -
  have idx: "BREEDS ! breed_index (str ''holstein1.png'') = str ''Gir''"
    using holstein_breed by (simp add: mock_breed_choice_def)
  from predict_accepted_upload [of holstein_upload "str ''image/png''" id "sample_env []" empty_state]
    holstein_gate [of id]
  have "fst (predict_cattle_breed id (sample_env []) holstein_upload empty_state)
       = Breed_response (BREEDS ! breed_index (str ''holstein1.png''))
   \<and> predictions (snd (predict_cattle_breed id (sample_env []) holstein_upload empty_state))
       = [\<lparr>doc_id = str ''d1'', filename = Some (str ''holstein1.png''),
           content_type = Some (str ''image/png''),
           breed = BREEDS ! breed_index (str ''holstein1.png''), timestamp = 100\<rparr>]"
    by (auto simp: holstein_upload_def sample_env_def empty_state_def)
  with holstein_gate [of id] show ?thesis
    by (simp add: idx)
qed

section \<open>Failures of the pruning and cleanup steps\<close>

text \<open>
  C7, as stated, fails. The handlers of the two inner try blocks are \<^verbatim>\<open>pass\<close>: when
  the count of the pruning step and the removal of the scratch file both raise, the
  answer is the breed and the record and the scratch file stay, but nothing is logged.
\<close>

theorem swallowed_failure_counterexample:
  "prune (sample_env [Count, Unlink])
      [\<lparr>doc_id = str ''d1'', filename = Some (str ''holstein1.png''),
        content_type = Some (str ''image/png''), breed = str ''Gir'', timestamp = 100\<rparr>]
     = Inl (IOError Count)
   \<and> unlink (sample_env [Count, Unlink]) (str ''t1.png'') [(str ''t1.png'', [137, 80, 78, 71])]
     = Inl (IOError Unlink)
   \<and> predict_cattle_breed id (sample_env [Count, Unlink]) holstein_upload empty_state
     = (Breed_response (str ''Gir''),
        \<lparr>predictions = [\<lparr>doc_id = str ''d1'', filename = Some (str ''holstein1.png''),
           content_type = Some (str ''image/png''), breed = str ''Gir'', timestamp = 100\<rparr>],
         uploads = [(str ''t1.png'', [137, 80, 78, 71])],
         logged = []\<rparr>)"
proof -
  have 1: "prune (sample_env [Count, Unlink])
      [\<lparr>doc_id = str ''d1'', filename = Some (str ''holstein1.png''),
        content_type = Some (str ''image/png''), breed = str ''Gir'', timestamp = 100\<rparr>]
     = Inl (IOError Count)"
    by (simp add: prune_def count_documents_def sample_env_def)
  have 2: "unlink (sample_env [Count, Unlink]) (str ''t1.png'') [(str ''t1.png'', [137, 80, 78, 71])]
     = Inl (IOError Unlink)"
    by (simp add: unlink_def sample_env_def)
  have sfx: "path_suffix (str ''holstein1.png'') = str ''.png''"
    by (simp add: gate_defs)
  have tmp: "str ''t1'' @ str ''.png'' = str ''t1.png''"
    by (simp add: str_def)
  from accepted_run [of holstein_upload "str ''image/png''" id "sample_env [Count, Unlink]" empty_state]
    holstein_gate [of id]
  have 3: "predict_cattle_breed id (sample_env [Count, Unlink]) holstein_upload empty_state
     = (Breed_response (str ''Gir''),
        \<lparr>predictions = [\<lparr>doc_id = str ''d1'', filename = Some (str ''holstein1.png''),
           content_type = Some (str ''image/png''), breed = str ''Gir'', timestamp = 100\<rparr>],
         uploads = [(str ''t1.png'', [137, 80, 78, 71])],
         logged = []\<rparr>)"
    by (simp add: holstein_upload_def sample_env_def empty_state_def holstein_breed sfx tmp
        try_unlink_def unlink_def prune_small)
  from 1 2 3 show ?thesis by simp
qed

text \<open>
  C7, amended. For an accepted upload whose reading, scratch write and insert succeed,
  whichever steps of the pruning and of the cleanup raise, the failure is swallowed
  without a log entry: it does not reach the caller, the answer is still the breed
  computed before, equal to the answer of the run without any failure, and the log is
  as it was before the call.
\<close>

theorem best_effort_failures_swallowed:
  assumes "file_content_type file = Some ct"
      and "looks_like_cow U (Some (py_or (file_filename file) [])) (Some ct)"
      and "set (failing e) \<subseteq> {Count, Find, Delete, Unlink}"
      and "uuid_doc e \<notin> set (map doc_id (predictions st))"
  shows "\<exists>f. file_filename file = Some f \<and>
      fst (predict_cattle_breed U e file st) = Breed_response (mock_breed_choice f) \<and>
      fst (predict_cattle_breed U e file st) = fst (predict_cattle_breed U (e\<lparr>failing := []\<rparr>) file st) \<and>
      logged (snd (predict_cattle_breed U e file st)) = logged st"
proof -
  from assms(3) have ok: "Read \<notin> set (failing e)" "Write \<notin> set (failing e)"
      "Insert \<notin> set (failing e)"
    by auto
  from accepted_run [OF assms(1,2) ok assms(4)] obtain f where
    f: "file_filename file = Some f" and
    r: "fst (predict_cattle_breed U e file st) = Breed_response (mock_breed_choice f)" and
    l: "logged (snd (predict_cattle_breed U e file st)) = logged st"
    by auto
  from accepted_run [of "file" ct U "e\<lparr>failing := []\<rparr>" st] assms(1,2,4) f
  have "fst (predict_cattle_breed U (e\<lparr>failing := []\<rparr>) file st)
      = Breed_response (mock_breed_choice f)"
    by auto
  with f r l show ?thesis by simp
qed

theorem best_effort_failures_swallowed_witness:
  "looks_like_cow id (Some (py_or (file_filename holstein_upload) [])) (Some (str ''image/png''))
   \<and> set (failing (sample_env [Find, Delete, Unlink])) \<subseteq> {Count, Find, Delete, Unlink}
   \<and> fst (predict_cattle_breed id (sample_env [Find, Delete, Unlink]) holstein_upload
         (empty_state\<lparr>predictions := docs20\<rparr>)) = Breed_response (str ''Gir'')
   \<and> logged (snd (predict_cattle_breed id (sample_env [Find, Delete, Unlink]) holstein_upload
         (empty_state\<lparr>predictions := docs20\<rparr>))) = []"
proof -
  let ?st = "empty_state\<lparr>predictions := docs20\<rparr>"
  have ids: "map doc_id docs20 = map (\<lambda>i. [i]) [0..<20]"
    by (simp add: docs20_def)
  have fresh: "uuid_doc (sample_env [Find, Delete, Unlink]) \<notin> set (map doc_id (predictions ?st))"
    by (auto simp: ids sample_env_def str_def)
  have sub: "set (failing (sample_env [Find, Delete, Unlink])) \<subseteq> {Count, Find, Delete, Unlink}"
    by (simp add: sample_env_def)
  from best_effort_failures_swallowed [of holstein_upload "str ''image/png''" id
      "sample_env [Find, Delete, Unlink]" ?st] holstein_gate [of id] sub fresh
  have "fst (predict_cattle_breed id (sample_env [Find, Delete, Unlink]) holstein_upload ?st)
        = Breed_response (mock_breed_choice (str ''holstein1.png''))
   \<and> logged (snd (predict_cattle_breed id (sample_env [Find, Delete, Unlink]) holstein_upload ?st))
        = logged ?st"
    by (auto simp: holstein_upload_def)
  with holstein_gate [of id] sub show ?thesis
    by (simp add: holstein_breed empty_state_def)
qed

section \<open>Recent predictions\<close>

lemma take_sorted_newest:
  assumes "x \<in># mset docs - mset (take l (sort_key f docs))"
      and "y \<in> set (take l (sort_key f docs))"
  shows "f y \<le> f x"
proof -
  let ?s = "sort_key f docs"
  have "mset docs = mset (take l ?s) + mset (drop l ?s)"
    by (simp flip: mset_append)
  then have "mset docs - mset (take l ?s) = mset (drop l ?s)"
    by simp
  with assms(1) have "x \<in> set (drop l ?s)"
    by simp
  with assms(2) show ?thesis
    using sorted_take_drop_le [of f ?s y l x] by simp
qed

text \<open>
  C8. For every integer limit the reader returns the first \<open>max 1 (min 50 limit)\<close>
  records of the store sorted on descending timestamp, as many as there are; without
  the parameter the limit is 20. The records returned are in descending order of
  timestamp, they are records of the store, and no record left out is newer than a
  record returned. The state is unchanged: nothing is pruned. A limit of 0 or less
  gives what limit 1 gives, and a limit of 50 or more (1000, say) what limit 50 gives.
\<close>

theorem recent_predictions_clamped:
  "snd (get_recent_predictions lp st) = st
   \<and> get_recent_predictions None st = get_recent_predictions (Some 20) st
   \<and> fst (get_recent_predictions (Some n) st)
       = take (nat (max 1 (min 50 n))) (sort_key (\<lambda>d. - timestamp d) (predictions st))
   \<and> 1 \<le> max 1 (min 50 n) \<and> max 1 (min 50 n) \<le> 50
   \<and> length (fst (get_recent_predictions (Some n) st))
       = min (nat (max 1 (min 50 n))) (length (predictions st))
   \<and> (1 \<le> n \<and> n \<le> 50 \<longrightarrow> length (fst (get_recent_predictions (Some n) st)) \<le> nat n)
   \<and> (\<forall>i j. i < j \<and> j < length (fst (get_recent_predictions lp st)) \<longrightarrow>
         timestamp (fst (get_recent_predictions lp st) ! j)
           \<le> timestamp (fst (get_recent_predictions lp st) ! i))
   \<and> mset (fst (get_recent_predictions lp st)) \<subseteq># mset (predictions st)
   \<and> (\<forall>d r. d \<in># mset (predictions st) - mset (fst (get_recent_predictions lp st))
          \<and> r \<in> set (fst (get_recent_predictions lp st)) \<longrightarrow> timestamp d \<le> timestamp r)
   \<and> (n \<le> 0 \<longrightarrow> get_recent_predictions (Some n) st = get_recent_predictions (Some 1) st)
   \<and> (50 \<le> n \<longrightarrow> get_recent_predictions (Some n) st = get_recent_predictions (Some 50) st)
   \<and> get_recent_predictions (Some 1000) st = get_recent_predictions (Some 50) st"
proof -
  let ?s = "sort_key (\<lambda>d. - timestamp d) (predictions st)"
  define l where "l = nat (max 1 (min 50 (case lp of None \<Rightarrow> 20 | Some n \<Rightarrow> n)))"
  have res: "fst (get_recent_predictions lp st) = take l ?s"
    by (simp add: get_recent_predictions_def l_def Let_def)
  have state: "snd (get_recent_predictions lp st) = st"
    by (simp add: get_recent_predictions_def Let_def)
  have dflt: "get_recent_predictions None st = get_recent_predictions (Some 20) st"
    by (simp add: get_recent_predictions_def)
  have some: "fst (get_recent_predictions (Some n) st) = take (nat (max 1 (min 50 n))) ?s"
    by (simp add: get_recent_predictions_def Let_def)
  have len: "length (fst (get_recent_predictions (Some n) st))
       = min (nat (max 1 (min 50 n))) (length (predictions st))"
    by (simp add: some min.commute)
  have len_n: "length (fst (get_recent_predictions (Some n) st)) \<le> nat n" if "1 \<le> n \<and> n \<le> 50"
    using that by (simp add: len)
  have "sorted (map (\<lambda>d. - timestamp d) (take l ?s))"
    using sorted_sort_key [of "\<lambda>d. - timestamp d" "predictions st"]
    by (simp only: take_map [symmetric] sorted_wrt_take)
  then have desc: "timestamp (take l ?s ! j) \<le> timestamp (take l ?s ! i)"
    if "i < j \<and> j < length (take l ?s)" for i j
    using that sorted_nth_mono [of "map (\<lambda>d. - timestamp d) (take l ?s)" i j] by simp
  have "mset (take l ?s) \<subseteq># mset (take l ?s) + mset (drop l ?s)"
    by (rule mset_subset_eq_add_left)
  then have sub: "mset (take l ?s) \<subseteq># mset (predictions st)"
    by (simp flip: mset_append)
  have newest: "timestamp d \<le> timestamp r"
    if "d \<in># mset (predictions st) - mset (take l ?s) \<and> r \<in> set (take l ?s)" for d r
    using that take_sorted_newest [of d "predictions st" l "\<lambda>d. - timestamp d" r] by simp
  have low: "get_recent_predictions (Some n) st = get_recent_predictions (Some 1) st" if "n \<le> 0"
    using that by (simp add: get_recent_predictions_def)
  have high: "get_recent_predictions (Some n) st = get_recent_predictions (Some 50) st" if "50 \<le> n"
    using that by (simp add: get_recent_predictions_def)
  have k: "get_recent_predictions (Some 1000) st = get_recent_predictions (Some 50) st"
    by (simp add: get_recent_predictions_def)
  have bounds: "1 \<le> max 1 (min 50 n) \<and> max 1 (min 50 n) \<le> 50"
    by simp
  from desc have desc': "\<forall>i j. i < j \<and> j < length (fst (get_recent_predictions lp st)) \<longrightarrow>
         timestamp (fst (get_recent_predictions lp st) ! j)
           \<le> timestamp (fst (get_recent_predictions lp st) ! i)"
    unfolding res by blast
  from newest have newest': "\<forall>d r. d \<in># mset (predictions st) - mset (fst (get_recent_predictions lp st))
          \<and> r \<in> set (fst (get_recent_predictions lp st)) \<longrightarrow> timestamp d \<le> timestamp r"
    unfolding res by blast
  from sub have sub': "mset (fst (get_recent_predictions lp st)) \<subseteq># mset (predictions st)"
    unfolding res .
  from state dflt some bounds len len_n desc' sub' newest' low high k show ?thesis
    by (intro conjI impI) blast+
qed

theorem recent_predictions_clamped_witness:
  "map doc_id (fst (get_recent_predictions (Some 0) (empty_state\<lparr>predictions := docs21\<rparr>))) = [[15]]
   \<and> map doc_id (fst (get_recent_predictions (Some (- 3)) (empty_state\<lparr>predictions := docs21\<rparr>))) = [[15]]
   \<and> map timestamp (fst (get_recent_predictions (Some 3) (empty_state\<lparr>predictions := docs21\<rparr>)))
       = [20, 19, 18]
   \<and> length (fst (get_recent_predictions (Some 1000) (empty_state\<lparr>predictions := docs21\<rparr>))) = 21
   \<and> snd (get_recent_predictions (Some 1000) (empty_state\<lparr>predictions := docs21\<rparr>))
       = empty_state\<lparr>predictions := docs21\<rparr>"
proof -
  let ?st = "empty_state\<lparr>predictions := docs21\<rparr>"
  have one: "map doc_id (take 1 (sort_key (\<lambda>d. - timestamp d) docs21)) = [[15]]"
    unfolding docs21_def by code_simp
  have three: "map timestamp (take 3 (sort_key (\<lambda>d. - timestamp d) docs21)) = [20, 19, 18]"
    unfolding docs21_def by code_simp
  have len: "length docs21 = 21"
    by (simp add: docs21_def)
  have sel: "fst (get_recent_predictions (Some n) ?st)
      = take (nat (max 1 (min 50 n))) (sort_key (\<lambda>d. - timestamp d) docs21)" for n
    using recent_predictions_clamped [of "Some n" ?st n] by (simp add: empty_state_def)
  have a: "map doc_id (fst (get_recent_predictions (Some 0) ?st)) = [[15]]"
    unfolding sel using one by simp
  have b: "map doc_id (fst (get_recent_predictions (Some (- 3)) ?st)) = [[15]]"
    unfolding sel using one by simp
  have c: "map timestamp (fst (get_recent_predictions (Some 3) ?st)) = [20, 19, 18]"
    unfolding sel using three by simp
  have d: "length (fst (get_recent_predictions (Some 1000) ?st)) = 21"
    unfolding sel using len by simp
  have e: "snd (get_recent_predictions (Some 1000) ?st) = ?st"
    using recent_predictions_clamped [of "Some 1000" ?st 1000] by blast
  from a b c d e show ?thesis by simp
qed

section \<open>The analytics summary\<close>

lemma group_by_breed_keys: "map fst (group_by_breed docs) = remdups (map breed docs)"
  by (simp add: group_by_breed_def o_def)

lemma group_by_breed_lookup:
  "map_of (group_by_breed docs) b =
     (if b \<in> set (map breed docs) then Some (count_list (map breed docs) b) else None)"
  unfolding group_by_breed_def map_of_map_restrict
  by (simp add: restrict_map_def)

lemma group_by_breed_sum: "sum_list (map snd (group_by_breed docs)) = length docs"
proof -
  let ?bs = "map breed docs"
  have "sum_list (map snd (group_by_breed docs)) = sum_list (map (count_list ?bs) (remdups ?bs))"
    by (simp add: group_by_breed_def o_def)
  also have "\<dots> = sum (count_list ?bs) (set (remdups ?bs))"
    by (rule sum_list_distinct_conv_sum_set) simp
  also have "\<dots> = length ?bs"
    using sum_count_set [of ?bs "set ?bs"] by simp
  finally show ?thesis by simp
qed

lemma group_by_breed_length:
  "length (group_by_breed docs) = card (set (map breed docs))"
  by (simp add: group_by_breed_def length_remdups_card_conv)

text \<open>A store of records with breeds of the breed list has at most 5 distinct breeds.\<close>

lemma breeds_bounded:
  assumes "set (map breed docs) \<subseteq> set BREEDS"
  shows "card (set (map breed docs)) \<le> 100"
proof -
  have "card (set (map breed docs)) \<le> card (set BREEDS)"
    using assms by (intro card_mono) simp_all
  also have "\<dots> \<le> length BREEDS"
    by (rule card_length)
  finally show ?thesis
    by (simp add: length_BREEDS)
qed

lemma aggregate_sorted:
  assumes "card (set (map breed docs)) \<le> 100"
  shows "aggregate docs = sort_key (\<lambda>a. - int (snd a)) (group_by_breed docs)"
  using assms by (simp add: aggregate_def group_by_breed_length)

lemma aggregate_distinct:
  assumes "card (set (map breed docs)) \<le> 100"
  shows "distinct (map fst (aggregate docs))"
proof -
  have "mset (map fst (aggregate docs)) = mset (map fst (group_by_breed docs))"
    by (simp add: aggregate_sorted [OF assms])
  then have "distinct (map fst (aggregate docs)) = distinct (map fst (group_by_breed docs))"
    by (rule mset_eq_imp_distinct_iff)
  then show ?thesis
    by (simp add: group_by_breed_keys)
qed

lemma aggregate_lookup:
  assumes "card (set (map breed docs)) \<le> 100"
  shows "map_of (aggregate docs) b =
     (if b \<in> set (map breed docs) then Some (count_list (map breed docs) b) else None)"
proof -
  have "distinct (map fst (group_by_breed docs))"
    by (simp add: group_by_breed_keys)
  moreover have "set (aggregate docs) = set (group_by_breed docs)"
    by (simp add: aggregate_sorted [OF assms])
  ultimately have "map_of (aggregate docs) = map_of (group_by_breed docs)"
    using aggregate_distinct [OF assms] by (simp add: map_of_inject_set)
  then show ?thesis
    by (simp only: group_by_breed_lookup)
qed

lemma aggregate_sum:
  assumes "card (set (map breed docs)) \<le> 100"
  shows "sum_list (map snd (aggregate docs)) = length docs"
proof -
  have "mset (map snd (aggregate docs)) = mset (map snd (group_by_breed docs))"
    by (simp add: aggregate_sorted [OF assms])
  then have "sum_mset (mset (map snd (aggregate docs))) = sum_mset (mset (map snd (group_by_breed docs)))"
    by simp
  then show ?thesis
    by (simp only: sum_mset_sum_list group_by_breed_sum)
qed

lemma max_by_count_max:
  "max_by_count best xs \<in> set (best # xs)
   \<and> (\<forall>x \<in> set (best # xs). snd x \<le> snd (max_by_count best xs))"
proof (induction xs arbitrary: best)
  case Nil
  then show ?case by simp
next
  case (Cons x xs)
  from Cons.IH [of "if snd best < snd x then x else best"] show ?case
    by (auto split: if_splits)
qed

lemma most_common_max:
  assumes "card (set (map breed docs)) \<le> 100" and "aggregate docs = x # xs"
  shows "fst (max_by_count x xs) \<in> set (map breed docs)
         \<and> (\<forall>b. count_list (map breed docs) b
                 \<le> count_list (map breed docs) (fst (max_by_count x xs)))"
proof -
  let ?bs = "map breed docs"
  let ?m = "max_by_count x xs"
  from max_by_count_max [of x xs] assms(2)
  have mem: "?m \<in> set (aggregate docs)"
    and mx: "\<forall>y \<in> set (aggregate docs). snd y \<le> snd ?m"
    by simp_all
  from mem have "map_of (aggregate docs) (fst ?m) = Some (snd ?m)"
    using aggregate_distinct [OF assms(1)] by simp
  then have key: "fst ?m \<in> set ?bs" and cnt: "snd ?m = count_list ?bs (fst ?m)"
    by (auto simp: aggregate_lookup [OF assms(1)] split: if_splits)
  have "count_list ?bs b \<le> count_list ?bs (fst ?m)" for b
  proof (cases "b \<in> set ?bs")
    case True
    then have "map_of (aggregate docs) b = Some (count_list ?bs b)"
      by (simp add: aggregate_lookup [OF assms(1)])
    then have "(b, count_list ?bs b) \<in> set (aggregate docs)"
      by (rule map_of_SomeD)
    with mx cnt show ?thesis by fastforce
  next
    case False
    then show ?thesis by simp
  qed
  with key show ?thesis by blast
qed

text \<open>
  C4. Over a store with at most 100 distinct breeds, the number of groups the handler
  reads (the stores that the prediction service builds have at most 5), the summary
  maps each breed that occurs to the number of records with it and has no other key;
  the total is the sum of these counts, which is the number of records; for the empty
  store there are no counts, the total is 0 and there is no most common breed;
  otherwise the most common breed is a breed that occurs and no breed has more records.
  The store is not changed. Over records with the breeds Jersey, Jersey, Gir the counts are Jersey 2 and
  Gir 1, the total is 3 and the most common breed is Jersey.
\<close>

theorem summary_counts_by_breed:
  assumes "card (set (map breed (predictions st))) \<le> 100"
  shows "snd (get_analytics_summary st) = st
   \<and> distinct (map fst (by_breed (fst (get_analytics_summary st))))
   \<and> map_of (by_breed (fst (get_analytics_summary st))) b
       = (if b \<in> set (map breed (predictions st))
          then Some (count_list (map breed (predictions st)) b) else None)
   \<and> total_count (fst (get_analytics_summary st))
       = sum_list (map snd (by_breed (fst (get_analytics_summary st))))
   \<and> total_count (fst (get_analytics_summary st)) = length (predictions st)
   \<and> (predictions st = [] \<longrightarrow>
         fst (get_analytics_summary st) = \<lparr>by_breed = [], total_count = 0, most_common = None\<rparr>)
   \<and> (predictions st \<noteq> [] \<longrightarrow>
         (\<exists>m. most_common (fst (get_analytics_summary st)) = Some m
            \<and> m \<in> set (map breed (predictions st))
            \<and> (\<forall>b'. count_list (map breed (predictions st)) b'
                     \<le> count_list (map breed (predictions st)) m)))
   \<and> fst (get_analytics_summary
        (st\<lparr>predictions := [d1\<lparr>breed := str ''Jersey''\<rparr>, d2\<lparr>breed := str ''Jersey''\<rparr>,
                            d3\<lparr>breed := str ''Gir''\<rparr>]\<rparr>))
       = \<lparr>by_breed = [(str ''Jersey'', 2), (str ''Gir'', 1)], total_count = 3,
          most_common = Some (str ''Jersey'')\<rparr>"
proof -
  let ?docs = "predictions st"
  let ?r = "fst (get_analytics_summary st)"
  have r: "by_breed ?r = aggregate ?docs"
    "total_count ?r = sum_list (map snd (aggregate ?docs))"
    "most_common ?r = (case aggregate ?docs of [] \<Rightarrow> None | x # xs \<Rightarrow> Some (fst (max_by_count x xs)))"
    by (simp_all add: get_analytics_summary_def Let_def)
  have 1: "snd (get_analytics_summary st) = st"
    by (simp add: get_analytics_summary_def Let_def)
  have 2: "distinct (map fst (by_breed ?r))"
    using aggregate_distinct [OF assms] by (simp add: r)
  have 3: "map_of (by_breed ?r) b
       = (if b \<in> set (map breed ?docs) then Some (count_list (map breed ?docs) b) else None)"
    using aggregate_lookup [OF assms] by (simp only: r)
  have 4: "total_count ?r = sum_list (map snd (by_breed ?r))"
    by (simp add: r)
  have 5: "total_count ?r = length ?docs"
    using aggregate_sum [OF assms] by (simp add: r)
  have 6: "?r = \<lparr>by_breed = [], total_count = 0, most_common = None\<rparr>" if "?docs = []"
    using that by (simp add: get_analytics_summary_def aggregate_def group_by_breed_def)
  have 7: "\<exists>m. most_common ?r = Some m \<and> m \<in> set (map breed ?docs)
            \<and> (\<forall>b'. count_list (map breed ?docs) b' \<le> count_list (map breed ?docs) m)"
    if "?docs \<noteq> []"
  proof (cases "aggregate ?docs")
    case Nil
    then have "length (aggregate ?docs) = 0" by simp
    then have "length (group_by_breed ?docs) = 0"
      by (simp add: aggregate_sorted [OF assms])
    then have "?docs = []"
      by (simp add: group_by_breed_def)
    with that show ?thesis by simp
  next
    case (Cons x xs)
    with most_common_max [OF assms Cons] show ?thesis
      by (simp add: r)
  qed
  have jg: "str ''Jersey'' \<noteq> str ''Gir''"
    by (simp add: str_def)
  have 8: "fst (get_analytics_summary
        (st\<lparr>predictions := [d1\<lparr>breed := str ''Jersey''\<rparr>, d2\<lparr>breed := str ''Jersey''\<rparr>,
                            d3\<lparr>breed := str ''Gir''\<rparr>]\<rparr>))
       = \<lparr>by_breed = [(str ''Jersey'', 2), (str ''Gir'', 1)], total_count = 3,
          most_common = Some (str ''Jersey'')\<rparr>"
    using jg by (simp add: get_analytics_summary_def aggregate_def group_by_breed_def Let_def)
  from 1 2 3 4 5 6 7 8 show ?thesis
    by (intro conjI impI) blast+
qed

theorem summary_counts_by_breed_witness:
  "card (set (map breed (predictions (empty_state\<lparr>predictions := docs21\<rparr>)))) \<le> 100
   \<and> total_count (fst (get_analytics_summary (empty_state\<lparr>predictions := docs21\<rparr>))) = 21
   \<and> map_of (by_breed (fst (get_analytics_summary (empty_state\<lparr>predictions := docs21\<rparr>)))) (str ''Gir'')
       = Some 21
   \<and> fst (get_analytics_summary empty_state) = \<lparr>by_breed = [], total_count = 0, most_common = None\<rparr>"
proof -
  let ?st = "empty_state\<lparr>predictions := docs21\<rparr>"
  have bs: "map breed docs21 = replicate 21 (str ''Gir'')"
    by (simp add: docs21_def o_def map_replicate_const)
  have "set (map breed (predictions ?st)) \<subseteq> set BREEDS"
    by (simp add: bs BREEDS_def)
  then have h: "card (set (map breed (predictions ?st))) \<le> 100"
    by (rule breeds_bounded)
  have cnt: "count_list (replicate n x) x = n" for n and x :: pystr
    by (induction n) simp_all
  have h0: "card (set (map breed (predictions empty_state))) \<le> 100"
    by (simp add: empty_state_def)
  have bs': "map breed (predictions ?st) = replicate 21 (str ''Gir'')"
    by (simp add: bs)
  have "total_count (fst (get_analytics_summary ?st)) = length (predictions ?st)
      \<and> map_of (by_breed (fst (get_analytics_summary ?st))) (str ''Gir'')
          = (if str ''Gir'' \<in> set (map breed (predictions ?st))
             then Some (count_list (map breed (predictions ?st)) (str ''Gir'')) else None)"
    using summary_counts_by_breed [OF h, of "str ''Gir''" "hd docs21" "hd docs21" "hd docs21"]
    by blast
  then have "total_count (fst (get_analytics_summary ?st)) = 21"
    and "map_of (by_breed (fst (get_analytics_summary ?st))) (str ''Gir'') = Some 21"
    unfolding bs' by (simp_all add: cnt docs21_def)
  moreover have "predictions empty_state = []"
    by (simp add: empty_state_def)
  then have "fst (get_analytics_summary empty_state) = \<lparr>by_breed = [], total_count = 0, most_common = None\<rparr>"
    using summary_counts_by_breed [OF h0, of "[]" "hd docs21" "hd docs21" "hd docs21"]
    by blast
  ultimately show ?thesis
    using h by simp
qed

end
